theory Spec2Isabelle
  imports Main "HOL-Library.Sublist"
begin

section \<open>Sandbox generation: effects, processes and the world\<close>

text \<open>
  The script \<^verbatim>\<open>generate\<close> (src/unnamed/part_000) drives external collaborators: shell
  commands, the package manager object, the file system and the list of shutdown hooks.
  Every call to a collaborator is an \<^emph>\<open>event\<close>. An asynchronous function of the script is
  a \<^emph>\<open>process\<close>: a tree that either returns, throws, or performs one event and continues
  with the reply (each \<^verbatim>\<open>await\<close> is such a node, and so is each synchronous call such as
  \<^verbatim>\<open>execSync\<close>). A \<^emph>\<open>world\<close> answers events; whether an
  external call fails, and what an external tool prints, is decided by the world's
  \<open>outcome\<close>, a function of the position in the trace and of the event, so that every
  pattern of failures is some world.
\<close>

datatype error = Error string

type_synonym reply = "error + string"

text \<open>Options of \<^verbatim>\<open>execaCommand\<close>: an absent key is \<open>None\<close>.\<close>

record exec_options =
  cwd :: "string option"
  env :: "(string \<times> string) list option"
  timeout :: "nat option"
  stdout :: "string option"
  stderr :: "string option"
  shell :: "bool option"

definition no_options :: exec_options where
  "no_options = \<lparr>cwd = None, env = None, timeout = None, stdout = None, stderr = None,
     shell = None\<rparr>"

text \<open>Object spread \<^verbatim>\<open>{...a, ...b}\<close>: a key present in \<open>b\<close> wins.\<close>

definition or_else :: "'a option \<Rightarrow> 'a option \<Rightarrow> 'a option" where
  "or_else b a = (case b of Some v \<Rightarrow> Some v | None \<Rightarrow> a)"

definition spread :: "exec_options \<Rightarrow> exec_options \<Rightarrow> exec_options" where
  "spread a b = \<lparr>cwd = or_else (cwd b) (cwd a), env = or_else (env b) (env a),
     timeout = or_else (timeout b) (timeout a), stdout = or_else (stdout b) (stdout a),
     stderr = or_else (stderr b) (stderr a), shell = or_else (shell b) (shell a)\<rparr>"

datatype event =
    ExecaCommand string exec_options
  | ExecSync string
  | GetPackageManager string
  | GetRegistryURL string
  | SetRegistryURL string string
  | BeforeShutdown "string list"
  | EmptyDir string
  | EnsureDir string
  | TempDirectory
  | CopyFiltered string string
  | Copy string string
  | Move string string
  | Remove string
  | WriteFile string string
  | GetStackblitzUrl string
  | RenderTemplate string string string

text \<open>
  \<open>GetRegistryURL pm\<close> and \<open>SetRegistryURL pm url\<close> are the two methods of the package
  manager object \<open>pm\<close>; \<open>TempDirectory\<close> is \<^verbatim>\<open>directory()\<close> of tempy.
  \<open>BeforeShutdown cmds\<close> is \<^verbatim>\<open>beforeShutdown(() => { execSync(c1); execSync(c2); ... })\<close>: the
  closure is recorded as the list of commands it will run. \<open>CopyFiltered\<close> is the \<^verbatim>\<open>copy\<close>
  with the filter of line 204, \<open>Copy\<close> the one without.
\<close>

record world =
  npm_config :: "string \<Rightarrow> string"
  registry :: "string \<Rightarrow> string"
  hooks :: "string list list"
  trace :: "event list"
  outcome :: "nat \<Rightarrow> event \<Rightarrow> reply"

text \<open>
  The effect of a shell command on the world. Only \<^verbatim>\<open>npm config get KEY\<close> and
  \<^verbatim>\<open>npm config set KEY VALUE\<close> touch the modelled configuration; every other command
  replies with what the outcome function printed.
\<close>

definition npm_command :: "string \<Rightarrow> string \<Rightarrow> world \<Rightarrow> reply \<times> world" where
  "npm_command cmd out w =
     (if prefix ''npm config get '' cmd then (Inr (npm_config w (drop 15 cmd)), w)
      else if prefix ''npm config set '' cmd then
        (let kv = drop 15 cmd;
             k = takeWhile (\<lambda>c. c \<noteq> CHR '' '') kv;
             v = drop 1 (dropWhile (\<lambda>c. c \<noteq> CHR '' '') kv)
         in (Inr [], w\<lparr>npm_config := (npm_config w)(k := v)\<rparr>))
      else (Inr out, w))"

text \<open>
  Performing an event appends it to the trace. Registering a shutdown hook is a push onto
  an array and cannot fail; every other event fails when the outcome function says so,
  and then changes nothing but the trace.
\<close>

definition perform :: "event \<Rightarrow> world \<Rightarrow> reply \<times> world" where
  "perform ev w =
     (let w' = w\<lparr>trace := trace w @ [ev]\<rparr> in
      case ev of
        BeforeShutdown h \<Rightarrow> (Inr [], w'\<lparr>hooks := hooks w @ [h]\<rparr>)
      | _ \<Rightarrow>
        (case outcome w (length (trace w)) ev of
           Inl e \<Rightarrow> (Inl e, w')
         | Inr out \<Rightarrow>
           (case ev of
              ExecaCommand cmd opts \<Rightarrow> npm_command cmd out w'
            | ExecSync cmd \<Rightarrow> npm_command cmd out w'
            | GetRegistryURL pm \<Rightarrow> (Inr (registry w pm), w')
            | SetRegistryURL pm url \<Rightarrow> (Inr [], w'\<lparr>registry := (registry w)(pm := url)\<rparr>)
            | _ \<Rightarrow> (Inr out, w'))))"

datatype 'a proc =
    Ret 'a
  | Throw error
  | Do event "reply \<Rightarrow> 'a proc"

primrec bind :: "'a proc \<Rightarrow> ('a \<Rightarrow> 'b proc) \<Rightarrow> 'b proc" where
  "bind (Ret a) f = f a"
| "bind (Throw e) f = Throw e"
| "bind (Do ev k) f = Do ev (\<lambda>r. bind (k r) f)"

text \<open>\<^verbatim>\<open>try { p } catch (e) { h(e) }\<close>\<close>

primrec try_catch :: "'a proc \<Rightarrow> (error \<Rightarrow> 'a proc) \<Rightarrow> 'a proc" where
  "try_catch (Ret a) h = Ret a"
| "try_catch (Throw e) h = h e"
| "try_catch (Do ev k) h = Do ev (\<lambda>r. try_catch (k r) h)"

text \<open>Calling a collaborator: a failure is thrown at the call.\<close>

definition call :: "event \<Rightarrow> string proc" where
  "call ev = Do ev (\<lambda>r. case r of Inl e \<Rightarrow> Throw e | Inr s \<Rightarrow> Ret s)"

definition seq :: "'a proc \<Rightarrow> 'b proc \<Rightarrow> 'b proc" where
  "seq p q = bind p (\<lambda>_. q)"

primrec run :: "'a proc \<Rightarrow> world \<Rightarrow> (error + 'a) \<times> world" where
  "run (Ret a) w = (Inr a, w)"
| "run (Throw e) w = (Inl e, w)"
| "run (Do ev k) w = (case perform ev w of (r, w') \<Rightarrow> run (k r) w')"

section \<open>Strings and paths\<close>

text \<open>
  \<^verbatim>\<open>String.prototype.indexOf\<close>, \<^verbatim>\<open>includes\<close>, \<^verbatim>\<open>startsWith\<close> and \<^verbatim>\<open>replaceAll\<close> with a
  string pattern. The patterns and the replacement used by the script are ASCII and hold no
  \<^verbatim>\<open>$\<close>, so searching bytes finds what searching UTF-16 units finds and the replacement is
  taken literally.
\<close>

fun indexOf_from :: "string \<Rightarrow> string \<Rightarrow> nat \<Rightarrow> int" where
  "indexOf_from [] pat i = (if pat = [] then int i else - 1)"
| "indexOf_from (c # cs) pat i =
     (if prefix pat (c # cs) then int i else indexOf_from cs pat (Suc i))"

definition indexOf :: "string \<Rightarrow> string \<Rightarrow> int" where
  "indexOf s pat = indexOf_from s pat 0"

definition str_includes :: "string \<Rightarrow> string \<Rightarrow> bool" where
  "str_includes s pat = (indexOf s pat \<noteq> - 1)"

definition startsWith :: "string \<Rightarrow> string \<Rightarrow> bool" where
  "startsWith s pat = prefix pat s"

fun replaceAll :: "string \<Rightarrow> string \<Rightarrow> string \<Rightarrow> string" where
  "replaceAll [] pat rep = (if pat = [] then rep else [])"
| "replaceAll (c # cs) pat rep =
     (if pat = [] then rep @ c # replaceAll cs pat rep
      else if prefix pat (c # cs) then rep @ replaceAll (drop (length pat - 1) cs) pat rep
      else c # replaceAll cs pat rep)"

text \<open>\<^verbatim>\<open>path.join\<close> of two normalised segments.\<close>

definition join :: "string \<Rightarrow> string \<Rightarrow> string" where
  "join a b = a @ ''/'' @ b"

text \<open>A string used as a condition: \<^verbatim>\<open>undefined\<close> and the empty string are falsy.\<close>

definition truthy :: "string option \<Rightarrow> bool" where
  "truthy v = (case v of None \<Rightarrow> False | Some s \<Rightarrow> s \<noteq> [])"

section \<open>The script\<close>

text \<open>
  Values the script imports from files that are not part of the sources
  (\<^verbatim>\<open>../utils/constants\<close>) or derives from \<^verbatim>\<open>__dirname\<close> and \<^verbatim>\<open>process.env\<close> are
  parameters. Calls to \<^verbatim>\<open>console.log\<close> and \<^verbatim>\<open>process.hrtime\<close> are left out.
\<close>

record settings =
  sbCliBinaryPath :: string
  stackblitzConfigPath :: string
  readmePath :: string
  REPROS_DIRECTORY :: string
  SCRIPT_TIMEOUT :: nat
  LOCAL_REGISTRY_URL :: string
  CLEANUP_SANDBOX_NODE_MODULES :: "string option"

text \<open>
  Modelled from the spec: the constants \<^verbatim>\<open>BEFORE_DIR_NAME\<close> and \<^verbatim>\<open>AFTER_DIR_NAME\<close> of
  \<^verbatim>\<open>../utils/constants\<close>, which the spec gives as the directories \<^verbatim>\<open>before\<close> and
  \<^verbatim>\<open>after\<close> under the temp root and under \<^verbatim>\<open>baseDir\<close>.
\<close>

definition BEFORE_DIR_NAME :: string where
  "BEFORE_DIR_NAME = ''before''"

definition AFTER_DIR_NAME :: string where
  "AFTER_DIR_NAME = ''after''"

text \<open>\<^verbatim>\<open>array.join(' ')\<close>\<close>

fun join_sp :: "string list \<Rightarrow> string" where
  "join_sp [] = []"
| "join_sp [x] = x"
| "join_sp (x # y # ys) = x @ '' '' @ join_sp (y # ys)"

definition execaCommand :: "string \<Rightarrow> exec_options \<Rightarrow> string proc" where
  "execaCommand script' options = call (ExecaCommand script' options)"

definition runCommand :: "string \<Rightarrow> exec_options \<Rightarrow> bool \<Rightarrow> string proc" where
  "runCommand script' options debug' =
     execaCommand script'
       (spread (no_options\<lparr>stdout := Some (if debug' then ''inherit'' else ''ignore''),
                  shell := Some True\<rparr>) options)"

definition sbInit :: "settings \<Rightarrow> string \<Rightarrow> string list \<Rightarrow> bool \<Rightarrow> unit proc" where
  "sbInit st cwd' flags debug' =
     (let env' = [(''STORYBOOK_DISABLE_TELEMETRY'', ''true'')];
          fullFlags = ''--yes'' # flags
      in seq (runCommand (sbCliBinaryPath st @ '' init '' @ join_sp fullFlags)
                (no_options\<lparr>cwd := Some cwd', env := Some env'\<rparr>) debug')
             (Ret ()))"

text \<open>
  \<^verbatim>\<open>withLocalRegistry\<close>, lines 39 to 58. The \<^verbatim>\<open>catch\<close> stores the error, so the block
  \<^verbatim>\<open>finally\<close> is what follows; a \<^verbatim>\<open>throw\<close> inside it ends the function. An error is an
  object, hence truthy in \<^verbatim>\<open>if (error)\<close>. The calls of the package manager act when they
  are made (line 45 does not await the first \<^verbatim>\<open>setRegistryURL\<close>).
\<close>

definition withLocalRegistry :: "settings \<Rightarrow> string \<Rightarrow> unit proc \<Rightarrow> unit proc" where
  "withLocalRegistry st packageManager action =
     bind (call (GetRegistryURL packageManager)) (\<lambda>prevUrl.
     bind (try_catch
             (seq (call (SetRegistryURL packageManager (LOCAL_REGISTRY_URL st)))
               (seq action (Ret None)))
             (\<lambda>e. Ret (Some e))) (\<lambda>error.
     seq (call (SetRegistryURL packageManager prevUrl))
       (case error of Some e \<Rightarrow> Throw e | None \<Rightarrow> Ret ())))"

text \<open>\<^verbatim>\<open>addStorybook\<close>, lines 60 to 97.\<close>

definition addStorybook ::
  "settings \<Rightarrow> string \<Rightarrow> bool \<Rightarrow> string list \<Rightarrow> bool \<Rightarrow> string \<Rightarrow> unit proc" where
  "addStorybook st dir localRegistry' flags debug' dirName' =
     bind (call (GetPackageManager dir)) (\<lambda>packageManager.
     bind (execaCommand ''npm config get audit'' no_options) (\<lambda>legacyPeerDeps.
     seq (if dirName' = ''angular-cli/prerelease''
          then seq (call (ExecSync ''npm config set legacy-peer-deps true''))
                 (call (BeforeShutdown [''npm config set legacy-peer-deps '' @ legacyPeerDeps]))
          else Ret [])
    (seq (if localRegistry'
          then withLocalRegistry st packageManager (sbInit st dir flags debug')
          else sbInit st dir flags debug')
         (if dirName' = ''angular-cli/prerelease''
          then seq (call (ExecSync (''npm config set legacy-peer-deps '' @ legacyPeerDeps)))
                 (Ret ())
          else Ret ()))))"

text \<open>\<^verbatim>\<open>addDocumentation\<close>, lines 111 to 126.\<close>

definition addDocumentation :: "settings \<Rightarrow> string \<Rightarrow> string \<Rightarrow> string \<Rightarrow> unit proc" where
  "addDocumentation st dir name' dirName' =
     seq (call (Copy (stackblitzConfigPath st) (join dir ''.stackblitzrc'')))
    (bind (call (GetStackblitzUrl dirName')) (\<lambda>stackblitzUrl.
     bind (call (RenderTemplate (readmePath st) name' stackblitzUrl)) (\<lambda>contents.
     seq (call (WriteFile (join dir ''README.md'') contents)) (Ret ()))))"

text \<open>\<^verbatim>\<open>improveNPMPerformance\<close>, lines 128 to 139.\<close>

definition improveNPMPerformance :: "unit proc" where
  "improveNPMPerformance =
     bind (execaCommand ''npm config get prefer-offline'' no_options) (\<lambda>preferOffline.
     bind (execaCommand ''npm config get audit'' no_options) (\<lambda>audit.
     seq (execaCommand ''npm config set prefer-offline true'' no_options)
    (seq (execaCommand ''npm config set audit false'' no_options)
    (seq (call (BeforeShutdown [''npm config set prefer-offline '' @ preferOffline,
                                ''npm config set audit '' @ audit]))
         (Ret ())))))"

record expected_config =
  renderer :: string

record template_config =
  name :: string
  script :: string
  expected :: expected_config

record generator = template_config +
  dirName :: string

text \<open>
  The function given to \<^verbatim>\<open>limit\<close> for one generator, lines 154 to 230: the builder of one
  sandbox.
\<close>

definition generator_task :: "settings \<Rightarrow> bool \<Rightarrow> bool \<Rightarrow> generator \<Rightarrow> unit proc" where
  "generator_task st localRegistry' debug' g =
     (let flags = (if renderer (expected g) = ''@storybook/html'' then [''--type html'']
                   else if renderer (expected g) = ''@storybook/server''
                     then [''--type server'']
                   else []);
          baseDir = join (REPROS_DIRECTORY st) (dirName g);
          beforeDir = join baseDir BEFORE_DIR_NAME;
          afterDir = join baseDir AFTER_DIR_NAME
      in seq (call (EmptyDir baseDir))
        (bind (call TempDirectory) (\<lambda>tempDir.
         let tempInitDir = join tempDir BEFORE_DIR_NAME in
         seq (if str_includes (script g) ''{{beforeDir}}''
              then (let scriptWithBeforeDir =
                          replaceAll (script g) ''{{beforeDir}}'' BEFORE_DIR_NAME
                    in runCommand scriptWithBeforeDir
                         (no_options\<lparr>cwd := Some tempDir,
                            timeout := Some (SCRIPT_TIMEOUT st),
                            stderr := Some ''inherit'',
                            env := Some [(''npm_config_user_agent'',
                              if startsWith scriptWithBeforeDir ''yarn'' then ''yarn''
                              else if startsWith scriptWithBeforeDir ''pnpm'' then ''pnpm''
                              else ''npm'')]\<rparr>)
                         debug')
              else seq (call (EnsureDir tempInitDir))
                     (runCommand (script g)
                        (no_options\<lparr>cwd := Some tempInitDir,
                           timeout := Some (SCRIPT_TIMEOUT st)\<rparr>)
                        debug'))
        (seq (call (CopyFiltered tempInitDir beforeDir))
        (seq (addStorybook st tempInitDir localRegistry' flags debug' (dirName g))
        (seq (call (Move tempInitDir afterDir))
        (seq (addDocumentation st afterDir (name g) (dirName g))
        (seq (if truthy (CLEANUP_SANDBOX_NODE_MODULES st)
              then call (Remove (join afterDir ''node_modules''))
              else Ret [])
        (seq (call (Remove tempDir))
             (Ret ()))))))))))"

text \<open>
  \<^verbatim>\<open>Promise.all(generators.map(g => limit(...)))\<close> with \<^verbatim>\<open>limit = pLimit(1)\<close>, at the
  moment the promise settles. The limiter runs the functions one at a time, in the order of
  the list. The promise resolves when all of them have returned. It rejects with the first
  error; the functions that had not run yet stay in the queue of the limiter, which goes on
  to start them whatever became of the promise (p-limit:
  \<^verbatim>\<open>try { await result } catch {}; next()\<close>). A settlement is the result, the world at that
  moment, and the processes still queued.
\<close>

type_synonym 'a settlement = "(error + 'a) \<times> world \<times> unit proc list"

fun all_limited :: "unit proc list \<Rightarrow> world \<Rightarrow> unit list settlement" where
  "all_limited [] w = (Inr [], w, [])"
| "all_limited (p # ps) w =
     (case run p w of
        (Inl e, w') \<Rightarrow> (Inl e, w', ps)
      | (Inr x, w') \<Rightarrow>
          (case all_limited ps w' of
             (Inl e, w'', rest) \<Rightarrow> (Inl e, w'', rest)
           | (Inr xs, w'', rest) \<Rightarrow> (Inr (x # xs), w'', rest)))"

text \<open>
  \<^verbatim>\<open>runGenerators\<close>, lines 141 to 233, with its default parameters. The generators are
  mapped to limited functions only after \<^verbatim>\<open>improveNPMPerformance\<close> returned.
\<close>

definition runGenerators ::
  "settings \<Rightarrow> generator list \<Rightarrow> bool option \<Rightarrow> bool option \<Rightarrow> world \<Rightarrow> unit settlement"
  where
  "runGenerators st generators localRegistry' debug' w =
     (let lr = (case localRegistry' of None \<Rightarrow> True | Some b \<Rightarrow> b);
          dbg = (case debug' of None \<Rightarrow> False | Some b \<Rightarrow> b)
      in case run improveNPMPerformance w of
           (Inl e, w') \<Rightarrow> (Inl e, w', [])
         | (Inr u, w') \<Rightarrow>
             (case all_limited (map (generator_task st lr dbg) generators) w' of
                (Inl e, w'', rest) \<Rightarrow> (Inl e, w'', rest)
              | (Inr xs, w'', rest) \<Rightarrow> (Inr (), w'', rest)))"

record option_values =
  template :: "string option"
  localRegistry :: "bool option"
  debug :: "bool option"

text \<open>
  \<^verbatim>\<open>generate\<close>, lines 253 to 272. The catalog \<^verbatim>\<open>sandboxTemplates\<close> is imported from a file
  that is not part of the sources: it is a parameter, the list of its entries in the order
  of \<^verbatim>\<open>Object.entries\<close>.
\<close>

definition generate ::
  "settings \<Rightarrow> (string \<times> template_config) list \<Rightarrow> option_values \<Rightarrow> world \<Rightarrow>
     unit settlement" where
  "generate st sandboxTemplates opts w =
     (let generatorConfigs =
            filter (\<lambda>g. if truthy (template opts) then Some (dirName g) = template opts
                        else True)
              (map (\<lambda>(dirName', configuration).
                      \<lparr>name = name configuration, script = script configuration,
                       expected = expected configuration, dirName = dirName'\<rparr>)
                 sandboxTemplates)
      in runGenerators st generatorConfigs (localRegistry opts) (debug opts) w)"

text \<open>
  A function of the queue that the limiter starts runs up to its first \<^verbatim>\<open>await\<close>: the call
  of its first event is made, and the reply is still to come. For a builder this call is
  \<^verbatim>\<open>emptyDir(baseDir)\<close>, line 166.
\<close>

primrec first_call :: "'a proc \<Rightarrow> event list" where
  "first_call (Ret a) = []"
| "first_call (Throw e) = []"
| "first_call (Do ev k) = [ev]"

definition started :: "unit proc list \<Rightarrow> world \<Rightarrow> world" where
  "started ps w = (case ps of [] \<Rightarrow> w | p # qs \<Rightarrow> w\<lparr>trace := trace w @ first_call p\<rparr>)"

text \<open>
  The action of the command, lines 280 to 292: the exit code of the process and the world
  it leaves. When \<^verbatim>\<open>generate\<close> rejects, the limiter has started the next function of its
  queue before the \<^verbatim>\<open>catch\<close> handler runs; \<^verbatim>\<open>process.exit(1)\<close> in that handler then ends
  the process, before any reply comes back and before the \<^verbatim>\<open>then\<close> handler is reached.
\<close>

definition program_action ::
  "settings \<Rightarrow> (string \<times> template_config) list \<Rightarrow> option_values \<Rightarrow> world \<Rightarrow> int \<times> world" where
  "program_action st sandboxTemplates optionValues w =
     (case generate st sandboxTemplates optionValues w of
        (Inl e, w', rest) \<Rightarrow> (1, started rest w')
      | (Inr u, w', rest) \<Rightarrow> (0, w'))"

section \<open>The filtered copy\<close>

text \<open>
  The tree below the init directory, and \<^verbatim>\<open>copy(src, dest, {filter})\<close> of fs-extra on it:
  the filter is asked for the source path of the root and of every entry met while
  descending; an entry it refuses is skipped with all that is below it. Nodes keep their
  names (the root of the copy is named by \<^verbatim>\<open>dest\<close>).
\<close>

datatype fsnode = FileNode string | DirNode string "fsnode list"

fun node_name :: "fsnode \<Rightarrow> string" where
  "node_name (FileNode n) = n"
| "node_name (DirNode n cs) = n"

text \<open>The filter of lines 204 to 206.\<close>

definition before_filter :: "string \<Rightarrow> bool" where
  "before_filter src = (indexOf src ''node_modules'' = - 1 \<and> indexOf src ''.git'' = - 1)"

fun copy_tree :: "(string \<Rightarrow> bool) \<Rightarrow> string \<Rightarrow> fsnode \<Rightarrow> fsnode option"
  and copy_items :: "(string \<Rightarrow> bool) \<Rightarrow> string \<Rightarrow> fsnode list \<Rightarrow> fsnode list" where
  "copy_tree f src (FileNode n) = (if f src then Some (FileNode n) else None)"
| "copy_tree f src (DirNode n cs) =
     (if f src then Some (DirNode n (copy_items f src cs)) else None)"
| "copy_items f src [] = []"
| "copy_items f src (c # cs) =
     (case copy_tree f (join src (node_name c)) c of
        None \<Rightarrow> copy_items f src cs
      | Some c' \<Rightarrow> c' # copy_items f src cs)"

text \<open>The source paths of the entries of a tree rooted at \<open>src\<close>, the root first.\<close>

fun paths_of :: "string \<Rightarrow> fsnode \<Rightarrow> string list"
  and paths_of_items :: "string \<Rightarrow> fsnode list \<Rightarrow> string list" where
  "paths_of src (FileNode n) = [src]"
| "paths_of src (DirNode n cs) = src # paths_of_items src cs"
| "paths_of_items src [] = []"
| "paths_of_items src (c # cs) = paths_of (join src (node_name c)) c @ paths_of_items src cs"

text \<open>The names of the entries strictly below the root: the path components of a snapshot.\<close>

fun names_below :: "fsnode \<Rightarrow> string list"
  and names_of_items :: "fsnode list \<Rightarrow> string list" where
  "names_below (FileNode n) = []"
| "names_below (DirNode n cs) = names_of_items cs"
| "names_of_items [] = []"
| "names_of_items (c # cs) = node_name c # names_below c @ names_of_items cs"

text \<open>
  The before snapshot of line 203: what \<^verbatim>\<open>copy(tempInitDir, beforeDir, {filter})\<close> writes
  for the tree found at \<open>tempInitDir\<close> (nothing at all when the root itself is refused).
\<close>

definition before_snapshot :: "string \<Rightarrow> fsnode \<Rightarrow> fsnode option" where
  "before_snapshot tempInitDir t = copy_tree before_filter tempInitDir t"

text \<open>The source paths of the entries of the before snapshot.\<close>

definition snapshot_paths :: "string \<Rightarrow> fsnode \<Rightarrow> string list" where
  "snapshot_paths tempInitDir t =
     (case before_snapshot tempInitDir t of None \<Rightarrow> [] | Some t' \<Rightarrow> paths_of tempInitDir t')"

section \<open>The limiter\<close>

text \<open>
  \<^verbatim>\<open>pLimit(n)\<close> of the library p-limit, by its contract: the functions given to \<^verbatim>\<open>limit\<close>
  wait in a queue in the order of the calls; one of them is started whenever fewer than
  \<open>n\<close> are running; one that returned or threw leaves, whatever its outcome. A running
  builder advances by performing its next event. The log records which task performed
  which event. Builders may interleave in any way the limit allows, which the steps below
  leave open.
\<close>

record pool =
  queue :: "(nat \<times> unit proc) list"
  active :: "(nat \<times> unit proc) list"
  pworld :: world
  plog :: "(nat \<times> event) list"

primrec settled :: "'a proc \<Rightarrow> bool" where
  "settled (Ret a) = True"
| "settled (Throw e) = True"
| "settled (Do ev k) = False"

inductive pool_step :: "nat \<Rightarrow> pool \<Rightarrow> pool \<Rightarrow> bool" for limit :: nat where
  start:
    "length (active s) < limit \<Longrightarrow> queue s = t # q \<Longrightarrow>
       pool_step limit s (s\<lparr>queue := q, active := active s @ [t]\<rparr>)"
| effect:
    "i < length (active s) \<Longrightarrow> active s ! i = (n, Do ev k) \<Longrightarrow>
     perform ev (pworld s) = (r, w') \<Longrightarrow>
       pool_step limit s
         (s\<lparr>active := (active s)[i := (n, k r)], pworld := w', plog := plog s @ [(n, ev)]\<rparr>)"
| settle:
    "i < length (active s) \<Longrightarrow> active s ! i = (n, p) \<Longrightarrow> settled p \<Longrightarrow>
       pool_step limit s (s\<lparr>active := take i (active s) @ drop (Suc i) (active s)\<rparr>)"

text \<open>The tasks are numbered in the order of the list given to \<^verbatim>\<open>map\<close>.\<close>

definition pool_init :: "unit proc list \<Rightarrow> world \<Rightarrow> pool" where
  "pool_init tasks w =
     \<lparr>queue = zip [0..<length tasks] tasks, active = [], pworld = w, plog = []\<rparr>"

text \<open>The limit of line 148, \<^verbatim>\<open>pLimit(1)\<close>.\<close>

definition concurrency :: nat where
  "concurrency = 1"

section \<open>States and failures named in the theorems\<close>

text \<open>
  The world in which the action wrapped by \<^verbatim>\<open>withLocalRegistry\<close> starts (the registry was
  read, then pointed at the local registry), and a world after a successful
  \<^verbatim>\<open>setRegistryURL\<close>.
\<close>

definition swapped :: "settings \<Rightarrow> string \<Rightarrow> world \<Rightarrow> world" where
  "swapped st pm w =
     w\<lparr>trace := trace w @ [GetRegistryURL pm, SetRegistryURL pm (LOCAL_REGISTRY_URL st)],
       registry := (registry w)(pm := LOCAL_REGISTRY_URL st)\<rparr>"

definition restored :: "string \<Rightarrow> string \<Rightarrow> world \<Rightarrow> world" where
  "restored pm url w =
     w\<lparr>trace := trace w @ [SetRegistryURL pm url], registry := (registry w)(pm := url)\<rparr>"

text \<open>
  The commands \<^verbatim>\<open>npm config get\<close> and \<^verbatim>\<open>npm config set\<close> never fail in this world, run
  by \<^verbatim>\<open>execSync\<close> or by \<^verbatim>\<open>execaCommand\<close> without options.
\<close>

definition npm_config_works :: "world \<Rightarrow> bool" where
  "npm_config_works w =
     (\<forall>n cmd. prefix ''npm config '' cmd \<longrightarrow>
        \<not> isl (outcome w n (ExecSync cmd)) \<and>
        \<not> isl (outcome w n (ExecaCommand cmd no_options)))"

text \<open>Every event a process can perform, whatever the replies, satisfies \<open>P\<close>.\<close>

primrec all_events :: "(event \<Rightarrow> bool) \<Rightarrow> 'a proc \<Rightarrow> bool" where
  "all_events P (Ret a) = True"
| "all_events P (Throw e) = True"
| "all_events P (Do ev k) = (P ev \<and> (\<forall>r. all_events P (k r)))"

text \<open>
  The calls of the installer are the commands run with the environment of \<^verbatim>\<open>sbInit\<close>
  (line 34); no other command of the script is given this environment.
\<close>

definition installer_invocation :: "event \<Rightarrow> bool" where
  "installer_invocation ev =
     (case ev of
        ExecaCommand c opts \<Rightarrow> env opts = Some [(''STORYBOOK_DISABLE_TELEMETRY'', ''true'')]
      | _ \<Rightarrow> False)"

text \<open>
  The builder that \<^verbatim>\<open>generate\<close> and \<^verbatim>\<open>runGenerators\<close> make for one entry of the catalog.
\<close>

definition catalog_task ::
  "settings \<Rightarrow> option_values \<Rightarrow> string \<times> template_config \<Rightarrow> unit proc" where
  "catalog_task st opts entry =
     generator_task st (case localRegistry opts of None \<Rightarrow> True | Some b \<Rightarrow> b)
       (case debug opts of None \<Rightarrow> False | Some b \<Rightarrow> b)
       \<lparr>name = name (snd entry), script = script (snd entry),
        expected = expected (snd entry), dirName = fst entry\<rparr>"

text \<open>The world after a successful \<^verbatim>\<open>improveNPMPerformance\<close>.\<close>

definition tuned :: "world \<Rightarrow> world" where
  "tuned w =
     w\<lparr>trace := trace w @
         [ExecaCommand ''npm config get prefer-offline'' no_options,
          ExecaCommand ''npm config get audit'' no_options,
          ExecaCommand ''npm config set prefer-offline true'' no_options,
          ExecaCommand ''npm config set audit false'' no_options,
          BeforeShutdown [''npm config set prefer-offline '' @ npm_config w ''prefer-offline'',
                          ''npm config set audit '' @ npm_config w ''audit'']],
       npm_config := (npm_config w)(''prefer-offline'' := ''true'', ''audit'' := ''false''),
       hooks := hooks w @
         [[''npm config set prefer-offline '' @ npm_config w ''prefer-offline'',
           ''npm config set audit '' @ npm_config w ''audit'']]\<rparr>"

text \<open>The world after each process of a list ran in turn, failed or not.\<close>

fun run_all :: "unit proc list \<Rightarrow> world \<Rightarrow> world" where
  "run_all [] w = w"
| "run_all (p # ps) w = run_all ps (snd (run p w))"

text \<open>
  With one slot: at most one builder is running, and the task numbers read along the log,
  then the running builder, then the queue, never decrease.
\<close>

definition pool_inv :: "pool \<Rightarrow> bool" where
  "pool_inv s = (length (active s) \<le> 1 \<and>
     sorted (map fst (plog s) @ map fst (active s) @ map fst (queue s)))"

section \<open>Example inputs\<close>

definition st0 :: settings where
  "st0 = \<lparr>sbCliBinaryPath = ''/repo/code/lib/cli/bin/index.js'',
     stackblitzConfigPath = ''/repo/scripts/sandbox/templates/.stackblitzrc'',
     readmePath = ''/repo/scripts/sandbox/templates/item.ejs'',
     REPROS_DIRECTORY = ''/repo/sandbox'', SCRIPT_TIMEOUT = 900000,
     LOCAL_REGISTRY_URL = ''http://localhost:6001'',
     CLEANUP_SANDBOX_NODE_MODULES = None\<rparr>"

text \<open>A world whose settings are all \<^verbatim>\<open>false\<close>, with a given pattern of failures.\<close>

definition world0 :: "(nat \<Rightarrow> event \<Rightarrow> reply) \<Rightarrow> world" where
  "world0 f = \<lparr>npm_config = (\<lambda>k. ''false''),
     registry = (\<lambda>pm. ''https://registry.npmjs.org/''),
     hooks = [], trace = [], outcome = f\<rparr>"

text \<open>Nothing fails.\<close>

definition all_ok :: "nat \<Rightarrow> event \<Rightarrow> reply" where
  "all_ok n ev =
     Inr (case ev of TempDirectory \<Rightarrow> ''/tmp/t'' | GetPackageManager d \<Rightarrow> ''npm'' | _ \<Rightarrow> [])"

text \<open>The installer fails, whatever its flags.\<close>

definition install_fails :: "nat \<Rightarrow> event \<Rightarrow> reply" where
  "install_fails n ev =
     (case ev of
        ExecaCommand c opts \<Rightarrow>
          if env opts = Some [(''STORYBOOK_DISABLE_TELEMETRY'', ''true'')]
          then Inl (Error ''install failed'') else Inr []
      | _ \<Rightarrow> all_ok n ev)"

text \<open>The installer fails, and so does setting the registry back to the public one.\<close>

definition install_and_restore_fail :: "nat \<Rightarrow> event \<Rightarrow> reply" where
  "install_and_restore_fail n ev =
     (case ev of
        SetRegistryURL pm url \<Rightarrow>
          if url = ''https://registry.npmjs.org/'' then Inl (Error ''restore failed'')
          else Inr []
      | _ \<Rightarrow> install_fails n ev)"

text \<open>Two templates: one names its directory itself, the other runs in a prepared one.\<close>

definition g_html :: generator where
  "g_html = \<lparr>name = ''HTML (Webpack)'', script = ''tool create {{beforeDir}}'',
      expected = \<lparr>renderer = ''@storybook/html''\<rparr>, dirName = ''html-webpack/default''\<rparr>"

definition g_react :: generator where
  "g_react = \<lparr>name = ''React (Vite)'', script = ''yarn create vite . --template react'',
      expected = \<lparr>renderer = ''@storybook/react''\<rparr>, dirName = ''react-vite/default-js''\<rparr>"

text \<open>A world in which the user had set \<^verbatim>\<open>legacy-peer-deps\<close> to \<^verbatim>\<open>true\<close>.\<close>

definition strict_peer_deps :: "world \<Rightarrow> world" where
  "strict_peer_deps w = w\<lparr>npm_config := (npm_config w)(''legacy-peer-deps'' := ''true'')\<rparr>"

text \<open>What a scaffolding tool may leave in the init directory.\<close>

definition scaffolded :: fsnode where
  "scaffolded = DirNode ''before''
     [FileNode ''.gitignore'',
      DirNode ''.git'' [FileNode ''HEAD''],
      DirNode ''node_modules_backup'' [FileNode ''x.js''],
      DirNode ''src'' [FileNode ''a.js'', DirNode ''node_modules'' [FileNode ''b.js'']],
      FileNode ''package.json'']"

text \<open>A catalog of two templates, and the options of two command lines.\<close>

definition t_html :: "string \<times> template_config" where
  "t_html = (''html-webpack/default'',
       \<lparr>name = ''HTML (Webpack)'', script = ''tool create {{beforeDir}}'',
        expected = \<lparr>renderer = ''@storybook/html''\<rparr>\<rparr>)"

definition t_react :: "string \<times> template_config" where
  "t_react = (''react-vite/default-js'',
       \<lparr>name = ''React (Vite)'', script = ''yarn create vite . --template react'',
        expected = \<lparr>renderer = ''@storybook/react''\<rparr>\<rparr>)"

definition catalog0 :: "(string \<times> template_config) list" where
  "catalog0 = [t_html, t_react]"

definition opts_all :: option_values where
  "opts_all = \<lparr>template = None, localRegistry = Some False, debug = None\<rparr>"

definition opts_unknown :: option_values where
  "opts_unknown = \<lparr>template = Some ''no-such-template'', localRegistry = Some False,
     debug = None\<rparr>"

text \<open>The scaffolding command of the first template fails.\<close>

definition scaffold_fails :: "nat \<Rightarrow> event \<Rightarrow> reply" where
  "scaffold_fails n ev =
     (case ev of
        ExecaCommand c opts \<Rightarrow>
          if c = ''tool create before'' then Inl (Error ''scaffolding failed'') else Inr []
      | _ \<Rightarrow> all_ok n ev)"


section \<open>Running processes\<close>

lemma run_bind:
  "run (bind p f) w =
     (case run p w of (Inl e, w') \<Rightarrow> (Inl e, w') | (Inr a, w') \<Rightarrow> run (f a) w')"
  by (induction p arbitrary: w) (auto split: prod.splits)

lemma run_seq:
  "run (seq p q) w =
     (case run p w of (Inl e, w') \<Rightarrow> (Inl e, w') | (Inr a, w') \<Rightarrow> run q w')"
  by (simp add: seq_def run_bind)

lemma run_try_catch:
  "run (try_catch p h) w =
     (case run p w of (Inl e, w') \<Rightarrow> run (h e) w' | (Inr a, w') \<Rightarrow> (Inr a, w'))"
  by (induction p arbitrary: w) (auto split: prod.splits)

lemma run_call:
  "run (call ev) w = perform ev w"
  by (auto simp: call_def split: prod.splits sum.splits)

lemma perform_outcome: "outcome (snd (perform ev w)) = outcome w"
  by (auto simp: perform_def npm_command_def Let_def split: event.splits sum.splits)

lemma run_outcome: "outcome (snd (run p w)) = outcome w"
proof (induction p arbitrary: w)
  case (Do ev k)
  obtain r w' where pw: "perform ev w = (r, w')" by (cases "perform ev w")
  have "outcome w' = outcome w" using perform_outcome [of ev w] pw by simp
  moreover have "outcome (snd (run (k r) w')) = outcome w'" using Do by blast
  ultimately show ?case using pw by simp
qed simp_all

lemma perform_trace: "trace (snd (perform ev w)) = trace w @ [ev]"
  by (auto simp: perform_def npm_command_def Let_def split: event.splits sum.splits)

lemma not_isl_Inr: "\<not> isl r \<Longrightarrow> \<exists>s. r = Inr s"
  by (cases r) simp_all

lemma run_trace_prefix: "prefix (trace w) (trace (snd (run p w)))"
proof (induction p arbitrary: w)
  case (Do ev k)
  obtain r w' where pw: "perform ev w = (r, w')" by (cases "perform ev w")
  have "prefix (trace w) (trace w')" using perform_trace [of ev w] pw by simp
  moreover have "prefix (trace w') (trace (snd (run (k r) w')))" using Do by blast
  ultimately show ?case using pw by (simp add: prefix_order.trans)
qed simp_all

lemma run_seq_prefix: "prefix (trace (snd (run p w))) (trace (snd (run (seq p q) w)))"
proof (cases "run p w")
  case (Pair r w')
  then show ?thesis using run_trace_prefix [of w' q]
    by (cases r) (simp_all add: run_seq)
qed

lemma run_seq_ok: "run p w = (Inr a, w') \<Longrightarrow> run (seq p q) w = run q w'"
  by (simp add: run_seq)

lemma run_bind_ok: "run p w = (Inr a, w') \<Longrightarrow> run (bind p f) w = run (f a) w'"
  by (simp add: run_bind)

section \<open>What \<open>replaceAll\<close> computes\<close>

text \<open>
  A string without the pattern is left as it is; in a string with the pattern, the first
  occurrence is replaced and the rest of the string is treated in the same way: every
  occurrence met from left to right is replaced, none overlapping a replaced one.
\<close>

lemma replaceAll_absent:
  assumes "pat \<noteq> []" and "\<not> sublist pat s"
  shows "replaceAll s pat rep = s"
  using assms(2)
proof (induction s)
  case Nil
  then show ?case using assms(1) by simp
next
  case (Cons c cs)
  then have "\<not> prefix pat (c # cs)" and "\<not> sublist pat cs"
    by (auto simp: sublist_Cons_right)
  then show ?case using Cons assms(1) by simp
qed

lemma prefix_short:
  assumes "prefix pat (a @ pat @ b)" and "a \<noteq> []" and "pat \<noteq> []"
  shows "sublist pat (a @ butlast pat)"
proof -
  have "length pat \<le> length (a @ butlast pat)" using assms(2) by (cases a) auto
  moreover have "prefix (a @ butlast pat) (a @ pat @ b)"
    using assms(3) by (metis append_butlast_last_id append.assoc prefix_def same_prefix_prefix)
  ultimately have "prefix pat (a @ butlast pat)"
    using assms(1) by (metis prefix_length_prefix)
  then show ?thesis by (rule prefix_imp_sublist)
qed

lemma replaceAll_first:
  assumes "pat \<noteq> []" and "\<not> sublist pat (a @ butlast pat)"
  shows "replaceAll (a @ pat @ b) pat rep = a @ rep @ replaceAll b pat rep"
  using assms(2)
proof (induction a)
  case Nil
  obtain c cs where pat: "pat = c # cs" using assms(1) by (cases pat) auto
  then show ?case by simp
next
  case (Cons x a)
  have "\<not> prefix pat ((x # a) @ pat @ b)"
    using prefix_short [of pat "x # a" b] Cons.prems assms(1) by blast
  moreover have "\<not> sublist pat (a @ butlast pat)"
    using Cons.prems by (auto simp: sublist_Cons_right)
  ultimately show ?case using Cons.IH assms(1) by simp
qed

lemma replaceAll_twice:
  "replaceAll ''tool create {{beforeDir}} && cd {{beforeDir}}'' ''{{beforeDir}}'' ''before'' =
     ''tool create before && cd before''"
  by simp

section \<open>The registry swap\<close>

lemma run_withLocalRegistry:
  "run (withLocalRegistry st pm action) w =
     (case perform (GetRegistryURL pm) w of
        (Inl e, w1) \<Rightarrow> (Inl e, w1)
      | (Inr prevUrl, w1) \<Rightarrow>
        (case perform (SetRegistryURL pm (LOCAL_REGISTRY_URL st)) w1 of
           (Inl e, w2) \<Rightarrow>
             (case perform (SetRegistryURL pm prevUrl) w2 of
                (Inl e', wr) \<Rightarrow> (Inl e', wr)
              | (Inr x, wr) \<Rightarrow> (Inl e, wr))
         | (Inr x, w2) \<Rightarrow>
             (case run action w2 of
                (ra, wa) \<Rightarrow>
                  (case perform (SetRegistryURL pm prevUrl) wa of
                     (Inl e', wr) \<Rightarrow> (Inl e', wr)
                   | (Inr y, wr) \<Rightarrow> (ra, wr)))))"
  by (simp add: withLocalRegistry_def run_bind run_seq run_try_catch run_call
      split: prod.splits sum.splits option.splits)

lemma perform_GetRegistryURL:
  "perform (GetRegistryURL pm) w =
     (case outcome w (length (trace w)) (GetRegistryURL pm) of
        Inl e \<Rightarrow> (Inl e, w\<lparr>trace := trace w @ [GetRegistryURL pm]\<rparr>)
      | Inr s \<Rightarrow> (Inr (registry w pm), w\<lparr>trace := trace w @ [GetRegistryURL pm]\<rparr>))"
  by (simp add: perform_def Let_def split: sum.splits)

lemma perform_SetRegistryURL:
  "perform (SetRegistryURL pm url) w =
     (case outcome w (length (trace w)) (SetRegistryURL pm url) of
        Inl e \<Rightarrow> (Inl e, w\<lparr>trace := trace w @ [SetRegistryURL pm url]\<rparr>)
      | Inr s \<Rightarrow> (Inr [], restored pm url w))"
  by (simp add: perform_def restored_def Let_def split: sum.splits)

lemma withLocalRegistry_run:
  assumes get_ok: "\<not> isl (outcome w (length (trace w)) (GetRegistryURL pm))"
    and set_ok: "\<not> isl (outcome w (Suc (length (trace w)))
                       (SetRegistryURL pm (LOCAL_REGISTRY_URL st)))"
  shows "run (withLocalRegistry st pm action) w =
     (case run action (swapped st pm w) of
        (ra, wa) \<Rightarrow>
          (case outcome w (length (trace wa)) (SetRegistryURL pm (registry w pm)) of
             Inl e' \<Rightarrow> (Inl e', wa\<lparr>trace := trace wa @ [SetRegistryURL pm (registry w pm)]\<rparr>)
           | Inr y \<Rightarrow> (ra, restored pm (registry w pm) wa)))"
proof -
  let ?w1 = "w\<lparr>trace := trace w @ [GetRegistryURL pm]\<rparr>"
  have g: "perform (GetRegistryURL pm) w = (Inr (registry w pm), ?w1)"
    using get_ok by (cases "outcome w (length (trace w)) (GetRegistryURL pm)")
      (simp_all add: perform_GetRegistryURL)
  have s: "perform (SetRegistryURL pm (LOCAL_REGISTRY_URL st)) ?w1 = (Inr [], swapped st pm w)"
    using set_ok
    by (cases "outcome w (Suc (length (trace w))) (SetRegistryURL pm (LOCAL_REGISTRY_URL st))")
      (simp_all add: perform_SetRegistryURL restored_def swapped_def)
  obtain ra wa where a: "run action (swapped st pm w) = (ra, wa)"
    by (cases "run action (swapped st pm w)")
  have "outcome wa = outcome (swapped st pm w)"
    using run_outcome [of action "swapped st pm w"] a by simp
  then have o: "outcome wa = outcome w" by (simp add: swapped_def)
  have r: "perform (SetRegistryURL pm (registry w pm)) wa =
     (case outcome w (length (trace wa)) (SetRegistryURL pm (registry w pm)) of
        Inl e \<Rightarrow> (Inl e, wa\<lparr>trace := trace wa @ [SetRegistryURL pm (registry w pm)]\<rparr>)
      | Inr s \<Rightarrow> (Inr [], restored pm (registry w pm) wa))"
    by (simp add: perform_SetRegistryURL o)
  show ?thesis
    by (simp add: run_withLocalRegistry g s a r split: sum.splits)
qed

section \<open>The npm configuration\<close>




section \<open>Events a process can perform\<close>

lemma all_events_bind:
  "all_events P p \<Longrightarrow> (\<And>a. all_events P (f a)) \<Longrightarrow> all_events P (bind p f)"
  by (induction p) auto

lemma all_events_seq:
  "all_events P p \<Longrightarrow> all_events P q \<Longrightarrow> all_events P (seq p q)"
  by (simp add: seq_def all_events_bind)

lemma all_events_try_catch:
  "all_events P p \<Longrightarrow> (\<And>e. all_events P (h e)) \<Longrightarrow> all_events P (try_catch p h)"
  by (induction p) auto

lemma all_events_call: "P ev \<Longrightarrow> all_events P (call ev)"
  by (auto simp: call_def split: sum.splits)

lemma all_events_if:
  "(c \<Longrightarrow> all_events P p) \<Longrightarrow> (\<not> c \<Longrightarrow> all_events P q) \<Longrightarrow> all_events P (if c then p else q)"
  by simp

lemma all_events_run:
  "all_events P p \<Longrightarrow> ev \<in> set (drop (length (trace w)) (trace (snd (run p w)))) \<Longrightarrow> P ev"
proof (induction p arbitrary: w)
  case (Do e k)
  obtain r w' where pw: "perform e w = (r, w')" by (cases "perform e w")
  have tw: "trace w' = trace w @ [e]" using perform_trace [of e w] pw by simp
  obtain tr where tr: "trace (snd (run (k r) w')) = trace w' @ tr"
    using run_trace_prefix [of w' "k r"] by (auto simp: prefix_def)
  have "ev \<in> set (e # tr)" using Do.prems(2) pw tr tw by simp
  then consider "ev = e" | "ev \<in> set tr" by auto
  then show ?case
  proof cases
    case 1
    then show ?thesis using Do.prems(1) by simp
  next
    case 2
    then have "ev \<in> set (drop (length (trace w')) (trace (snd (run (k r) w'))))"
      using tr by simp
    moreover have "all_events P (k r)" using Do.prems(1) by simp
    ultimately show ?thesis using Do.IH by blast
  qed
qed simp_all

lemmas all_events_intros = all_events_bind all_events_seq all_events_try_catch
  all_events_call all_events_if

section \<open>Substrings and the filtered copy\<close>

lemma indexOf_from_sublist: "indexOf_from s pat i = - 1 \<longleftrightarrow> \<not> sublist pat s"
proof (induction s arbitrary: i)
  case Nil
  then show ?case by simp
next
  case (Cons c cs)
  show ?case
  proof (cases "prefix pat (c # cs)")
    case True
    then show ?thesis by (auto simp: sublist_Cons_right)
  next
    case False
    then show ?thesis using Cons [of "Suc i"] by (simp add: sublist_Cons_right)
  qed
qed

lemma indexOf_sublist: "indexOf s pat = - 1 \<longleftrightarrow> \<not> sublist pat s"
  by (simp add: indexOf_def indexOf_from_sublist)

lemma before_filter_sublist:
  "before_filter p \<longleftrightarrow> \<not> sublist ''node_modules'' p \<and> \<not> sublist ''.git'' p"
  by (simp add: before_filter_def indexOf_sublist)

lemma sublist_join_left: "sublist pat a \<Longrightarrow> sublist pat (join a b)"
proof -
  assume "sublist pat a"
  then obtain ps ss where "a = ps @ pat @ ss" by (auto simp: sublist_def)
  then have "join a b = ps @ pat @ (ss @ ''/'' @ b)" by (simp add: join_def)
  then show ?thesis unfolding sublist_def by blast
qed

lemma sublist_join_right: "sublist pat b \<Longrightarrow> sublist pat (join a b)"
proof -
  assume "sublist pat b"
  then obtain ps ss where "b = ps @ pat @ ss" by (auto simp: sublist_def)
  then have "join a b = (a @ ''/'' @ ps) @ pat @ ss" by (simp add: join_def)
  then show ?thesis unfolding sublist_def by blast
qed

lemma before_filter_join:
  "before_filter (join a b) \<Longrightarrow> before_filter a \<and> \<not> sublist ''node_modules'' b \<and> \<not> sublist ''.git'' b"
  using sublist_join_left sublist_join_right by (auto simp: before_filter_sublist)

lemma copy_tree_Some:
  "copy_tree f p c = Some c' \<Longrightarrow> f p \<and> node_name c' = node_name c"
  by (cases c) (auto split: if_splits)

lemma paths_below:
  "\<not> before_filter src \<Longrightarrow> \<forall>p \<in> set (paths_of src t). \<not> before_filter p"
  "\<not> before_filter src \<Longrightarrow> \<forall>p \<in> set (paths_of_items src cs). \<not> before_filter p"
proof (induction src t and src cs rule: paths_of_paths_of_items.induct)
  case (4 src c cs)
  have "\<not> before_filter (join src (node_name c))"
    using "4.prems" before_filter_join by blast
  then show ?case using 4 by auto
qed auto

lemma copy_paths:
  "(case copy_tree before_filter src t of None \<Rightarrow> [] | Some t' \<Rightarrow> paths_of src t') =
     filter before_filter (paths_of src t)"
  "paths_of_items src (copy_items before_filter src cs) =
     filter before_filter (paths_of_items src cs)"
proof (induction src t and src cs rule: paths_of_paths_of_items.induct)
  case (1 src n)
  then show ?case by simp
next
  case (2 src n cs)
  then show ?case using paths_below(2) [of src cs] by (auto simp: filter_empty_conv)
next
  case (3 src)
  then show ?case by simp
next
  case (4 src c cs)
  show ?case
  proof (cases "copy_tree before_filter (join src (node_name c)) c")
    case None
    then show ?thesis using 4 by simp
  next
    case (Some c')
    then have "node_name c' = node_name c" using copy_tree_Some by blast
    then show ?thesis using 4 Some by simp
  qed
qed

lemma names_of_copy:
  "copy_tree before_filter src t = Some t' \<Longrightarrow>
     \<forall>n \<in> set (names_below t'). \<not> sublist ''node_modules'' n \<and> \<not> sublist ''.git'' n"
  "\<forall>n \<in> set (names_of_items (copy_items before_filter src cs)).
     \<not> sublist ''node_modules'' n \<and> \<not> sublist ''.git'' n"
proof (induction src t and src cs arbitrary: t' rule: paths_of_paths_of_items.induct)
  case (1 src n)
  then show ?case by (auto split: if_splits)
next
  case (2 src n cs)
  then show ?case by (auto split: if_splits)
next
  case (3 src)
  then show ?case by simp
next
  case (4 src c cs)
  show ?case
  proof (cases "copy_tree before_filter (join src (node_name c)) c")
    case None
    then show ?thesis using 4 by simp
  next
    case (Some c')
    then have nm: "node_name c' = node_name c" and ok: "before_filter (join src (node_name c))"
      using copy_tree_Some by blast+
    have "\<not> sublist ''node_modules'' (node_name c) \<and> \<not> sublist ''.git'' (node_name c)"
      using ok before_filter_join by blast
    then show ?thesis using 4 Some nm by auto
  qed
qed

lemma before_snapshot_scaffolded: "before_snapshot ''/tmp/t/before'' scaffolded =
     Some (DirNode ''before'' [DirNode ''src'' [FileNode ''a.js''], FileNode ''package.json''])"
  by (simp add: before_snapshot_def scaffolded_def before_filter_def indexOf_def join_def)

section \<open>The orchestrator\<close>

lemma run_improveNPMPerformance:
  assumes "npm_config_works w"
  shows "run improveNPMPerformance w = (Inr (), tuned w)"
proof -
  have o: "\<exists>s. outcome w n (ExecaCommand cmd no_options) = Inr s"
    if "prefix ''npm config '' cmd" for n cmd
  proof -
    have "\<not> isl (outcome w n (ExecaCommand cmd no_options))"
      using assms that by (simp add: npm_config_works_def)
    then show ?thesis by (rule not_isl_Inr)
  qed
  obtain s1 where s1: "outcome w (length (trace w))
      (ExecaCommand ''npm config get prefer-offline'' no_options) = Inr s1"
    using o [of "''npm config get prefer-offline''"] by auto
  obtain s2 where s2: "outcome w (Suc (length (trace w)))
      (ExecaCommand ''npm config get audit'' no_options) = Inr s2"
    using o [of "''npm config get audit''"] by auto
  obtain s3 where s3: "outcome w (Suc (Suc (length (trace w))))
      (ExecaCommand ''npm config set prefer-offline true'' no_options) = Inr s3"
    using o [of "''npm config set prefer-offline true''"] by auto
  obtain s4 where s4: "outcome w (Suc (Suc (Suc (length (trace w)))))
      (ExecaCommand ''npm config set audit false'' no_options) = Inr s4"
    using o [of "''npm config set audit false''"] by auto
  show ?thesis
    using s1 s2 s3 s4
    by (simp add: improveNPMPerformance_def execaCommand_def run_bind run_seq run_call
        perform_def npm_command_def Let_def tuned_def)
qed



lemma all_limited_run_all:
  "all_limited ps w = (r, w', rest) \<Longrightarrow> run_all rest w' = run_all ps w"
  by (induction ps arbitrary: w r w' rest) (auto split: prod.splits sum.splits)



lemma generate_unknown:
  assumes "template opts = Some t" and "t \<noteq> []" and "t \<notin> fst ` set cat"
  shows "generate st cat opts w =
     (fst (run improveNPMPerformance w), snd (run improveNPMPerformance w), [])"
proof -
  have "filter (\<lambda>g. if truthy (template opts) then Some (dirName g) = template opts else True)
              (map (\<lambda>(dirName', configuration).
                      \<lparr>name = name configuration, script = script configuration,
                       expected = expected configuration, dirName = dirName'\<rparr>)
                 cat) = []"
    using assms by (force simp: filter_empty_conv truthy_def)
  then show ?thesis
    by (cases "run improveNPMPerformance w")
      (simp add: generate_def runGenerators_def Let_def split: sum.splits)
qed

lemma first_call_seq_call: "first_call (seq (call ev) q) = [ev]"
  by (simp add: seq_def call_def)


lemmas eval_defs = sbInit_def runCommand_def execaCommand_def withLocalRegistry_def
  addStorybook_def addDocumentation_def improveNPMPerformance_def generator_task_def
  run_bind run_seq run_try_catch run_call perform_def npm_command_def
  spread_def no_options_def or_else_def Let_def join_def truthy_def
  BEFORE_DIR_NAME_def AFTER_DIR_NAME_def str_includes_def indexOf_def startsWith_def
  swapped_def restored_def
  st0_def world0_def all_ok_def install_fails_def install_and_restore_fail_def g_html_def g_react_def strict_peer_deps_def

lemmas eval_main = eval_defs program_action_def generate_def runGenerators_def catalog_task_def
  started_def first_call_seq_call
  catalog0_def t_html_def t_react_def opts_all_def opts_unknown_def scaffold_fails_def


section \<open>The limiter with one slot\<close>

lemma pool_inv_init: "pool_inv (pool_init tasks w)"
  by (simp add: pool_inv_def pool_init_def)

lemma pool_inv_step:
  assumes "pool_step 1 s s'" and "pool_inv s"
  shows "pool_inv s'"
  using assms
proof (induction rule: pool_step.induct)
  case (start s t q)
  then show ?case by (simp add: pool_inv_def)
next
  case (effect i s n ev k r w')
  then obtain a where a: "active s = [a]" and i: "i = 0"
    by (cases "active s") (auto simp: pool_inv_def)
  then have "a = (n, Do ev k)" using effect by simp
  then show ?case using effect a i
    by (auto simp: pool_inv_def sorted_append)
next
  case (settle i s n p)
  then obtain a where a: "active s = [a]" and i: "i = 0"
    by (cases "active s") (auto simp: pool_inv_def)
  then show ?case using settle
    by (auto simp: pool_inv_def sorted_append)
qed

lemma pool_inv_reachable:
  assumes "(pool_step 1)\<^sup>*\<^sup>* s s'" and "pool_inv s"
  shows "pool_inv s'"
  using assms by (induction rule: rtranclp_induct) (auto intro: pool_inv_step)

lemma pool_run_active:
  "\<exists>lg. (pool_step limit)\<^sup>*\<^sup>*
          \<lparr>queue = q, active = [(n, p)], pworld = w, plog = l\<rparr>
          \<lparr>queue = q, active = [], pworld = snd (run p w), plog = l @ lg\<rparr> \<and>
        set (map fst lg) \<subseteq> {n}"
proof (induction p arbitrary: w l)
  case (Ret a)
  have "pool_step limit \<lparr>queue = q, active = [(n, Ret a)], pworld = w, plog = l\<rparr>
          \<lparr>queue = q, active = [], pworld = w, plog = l\<rparr>"
    using pool_step.settle [of 0 "\<lparr>queue = q, active = [(n, Ret a)], pworld = w, plog = l\<rparr>"
        n "Ret a" limit]
    by simp
  then show ?case by (intro exI [of _ "[]"]) auto
next
  case (Throw e)
  have "pool_step limit \<lparr>queue = q, active = [(n, Throw e)], pworld = w, plog = l\<rparr>
          \<lparr>queue = q, active = [], pworld = w, plog = l\<rparr>"
    using pool_step.settle [of 0 "\<lparr>queue = q, active = [(n, Throw e)], pworld = w, plog = l\<rparr>"
        n "Throw e" limit]
    by simp
  then show ?case by (intro exI [of _ "[]"]) auto
next
  case (Do ev k)
  obtain r w' where pw: "perform ev w = (r, w')" by (cases "perform ev w")
  have step: "pool_step limit \<lparr>queue = q, active = [(n, Do ev k)], pworld = w, plog = l\<rparr>
          \<lparr>queue = q, active = [(n, k r)], pworld = w', plog = l @ [(n, ev)]\<rparr>"
    using pool_step.effect [of 0 "\<lparr>queue = q, active = [(n, Do ev k)], pworld = w, plog = l\<rparr>"
        n ev k r w' limit] pw
    by simp
  obtain lg where lg: "(pool_step limit)\<^sup>*\<^sup>*
          \<lparr>queue = q, active = [(n, k r)], pworld = w', plog = l @ [(n, ev)]\<rparr>
          \<lparr>queue = q, active = [], pworld = snd (run (k r) w'), plog = (l @ [(n, ev)]) @ lg\<rparr>"
    and tags: "set (map fst lg) \<subseteq> {n}"
    using Do.IH [OF rangeI, of r w' "l @ [(n, ev)]"] by blast
  have "(pool_step limit)\<^sup>*\<^sup>*
          \<lparr>queue = q, active = [(n, Do ev k)], pworld = w, plog = l\<rparr>
          \<lparr>queue = q, active = [], pworld = snd (run (Do ev k) w), plog = l @ ((n, ev) # lg)\<rparr>"
    using step lg pw by (simp add: converse_rtranclp_into_rtranclp)
  then show ?case using tags by (intro exI [of _ "(n, ev) # lg"]) auto
qed

lemma pool_run_queue:
  assumes "0 < limit"
  shows "\<exists>lg. (pool_step limit)\<^sup>*\<^sup>*
          \<lparr>queue = q, active = [], pworld = w, plog = l\<rparr>
          \<lparr>queue = [], active = [], pworld = run_all (map snd q) w, plog = lg\<rparr>"
proof (induction q arbitrary: w l)
  case Nil
  then show ?case by auto
next
  case (Cons t q)
  obtain n p where t: "t = (n, p)" by (cases t)
  have s1: "pool_step limit \<lparr>queue = t # q, active = [], pworld = w, plog = l\<rparr>
          \<lparr>queue = q, active = [t], pworld = w, plog = l\<rparr>"
    using pool_step.start [of "\<lparr>queue = t # q, active = [], pworld = w, plog = l\<rparr>" limit t q]
      assms by simp
  obtain lg where s2: "(pool_step limit)\<^sup>*\<^sup>*
          \<lparr>queue = q, active = [(n, p)], pworld = w, plog = l\<rparr>
          \<lparr>queue = q, active = [], pworld = snd (run p w), plog = l @ lg\<rparr>"
    using pool_run_active [of limit q n p w l] by blast
  obtain lg' where s3: "(pool_step limit)\<^sup>*\<^sup>*
          \<lparr>queue = q, active = [], pworld = snd (run p w), plog = l @ lg\<rparr>
          \<lparr>queue = [], active = [], pworld = run_all (map snd q) (snd (run p w)), plog = lg'\<rparr>"
    using Cons [of "snd (run p w)" "l @ lg"] by blast
  have "(pool_step limit)\<^sup>*\<^sup>*
          \<lparr>queue = t # q, active = [], pworld = w, plog = l\<rparr>
          \<lparr>queue = [], active = [], pworld = run_all (map snd (t # q)) w, plog = lg'\<rparr>"
    using s1 s2 s3 t by (simp add: converse_rtranclp_into_rtranclp)
  then show ?case by blast
qed

lemma pool_completes:
  assumes "0 < limit"
  shows "\<exists>lg. (pool_step limit)\<^sup>*\<^sup>* (pool_init tasks w)
          \<lparr>queue = [], active = [], pworld = run_all tasks w, plog = lg\<rparr>"
proof -
  have "map snd (zip [0..<length tasks] tasks) = tasks" by simp
  then show ?thesis
    using pool_run_queue [OF assms, of "zip [0..<length tasks] tasks" w "[]"]
    by (simp add: pool_init_def)
qed

text \<open>With two slots the builders of two tasks do interleave: the invariant needs the limit.\<close>

lemma two_builders_interleave:
  "\<exists>s. (pool_step 2)\<^sup>*\<^sup>* (pool_init [Do e0 k0, Do e1 k1] w) s \<and>
        map fst (plog s) = [1, 0]"
proof -
  obtain r1 w1 where p1: "perform e1 w = (r1, w1)" by (cases "perform e1 w")
  obtain r0 w0 where p0: "perform e0 w1 = (r0, w0)" by (cases "perform e0 w1")
  let ?s0 = "pool_init [Do e0 k0, Do e1 k1] w"
  let ?s1 = "\<lparr>queue = [(1, Do e1 k1)], active = [(0, Do e0 k0)], pworld = w, plog = []\<rparr>"
  let ?s2 = "\<lparr>queue = [], active = [(0, Do e0 k0), (1, Do e1 k1)], pworld = w, plog = []\<rparr>"
  let ?s3 = "\<lparr>queue = [], active = [(0, Do e0 k0), (1, k1 r1)], pworld = w1,
              plog = [(1, e1)]\<rparr>"
  let ?s4 = "\<lparr>queue = [], active = [(0, k0 r0), (1, k1 r1)], pworld = w0,
              plog = [(1, e1), (0, e0)]\<rparr>"
  have a: "pool_step 2 ?s0 ?s1"
    using pool_step.start [of ?s0 2 "(0, Do e0 k0)" "[(1, Do e1 k1)]"]
    by (simp add: pool_init_def upt_rec)
  have b: "pool_step 2 ?s1 ?s2"
    using pool_step.start [of ?s1 2 "(1, Do e1 k1)" "[]"] by simp
  have c: "pool_step 2 ?s2 ?s3"
    using pool_step.effect [of 1 ?s2 1 e1 k1 r1 w1 2] p1 by simp
  have d: "pool_step 2 ?s3 ?s4"
    using pool_step.effect [of 0 ?s3 0 e0 k0 r0 w0 2] p0 by simp
  have "(pool_step 2)\<^sup>*\<^sup>* ?s0 ?s4"
    using a b c d by (meson rtranclp.rtrancl_into_rtrancl rtranclp.rtrancl_refl)
  then show ?thesis by (intro exI [of _ ?s4]) simp
qed

section \<open>Claims\<close>





text \<open>
  Claim C2. \<^verbatim>\<open>withLocalRegistry\<close> reads the registry URL of the package manager before it
  changes it. Provided that setting the URL back to the value read does not itself fail
  (claim C4 is about that failure), the URL is the one read before, whatever the wrapped
  action did and whether it returned or threw; and when reading and pointing at the local
  registry succeeded, the action runs with the local registry, the last thing done is the
  restoration, and the caller gets exactly the action's result: its error when it threw.
\<close>

theorem withLocalRegistry_restores:
  assumes restore_ok: "\<forall>n. \<not> isl (outcome w n (SetRegistryURL pm (registry w pm)))"
  shows "registry (snd (run (withLocalRegistry st pm action) w)) pm = registry w pm \<and>
     (\<not> isl (outcome w (length (trace w)) (GetRegistryURL pm)) \<and>
      \<not> isl (outcome w (Suc (length (trace w))) (SetRegistryURL pm (LOCAL_REGISTRY_URL st)))
      \<longrightarrow> run (withLocalRegistry st pm action) w =
            (fst (run action (swapped st pm w)),
             restored pm (registry w pm) (snd (run action (swapped st pm w)))))"
proof -
  let ?restore = "SetRegistryURL pm (registry w pm)"
  have restore: "perform ?restore w' = (Inr [], restored pm (registry w pm) w')"
    if "outcome w' = outcome w" for w'
  proof -
    have "\<not> isl (outcome w (length (trace w')) ?restore)" using restore_ok by blast
    then show ?thesis using that
      by (cases "outcome w (length (trace w')) ?restore") (simp_all add: perform_SetRegistryURL)
  qed
  obtain r0 w1 where get: "perform (GetRegistryURL pm) w = (r0, w1)"
    by (cases "perform (GetRegistryURL pm) w")
  have w1: "w1 = w\<lparr>trace := trace w @ [GetRegistryURL pm]\<rparr>"
    and r0: "\<And>u. r0 = Inr u \<Longrightarrow> u = registry w pm"
    using get by (auto simp: perform_GetRegistryURL split: sum.splits)
  obtain r1 w2 where set: "perform (SetRegistryURL pm (LOCAL_REGISTRY_URL st)) w1 = (r1, w2)"
    by (cases "perform (SetRegistryURL pm (LOCAL_REGISTRY_URL st)) w1")
  have o2: "outcome w2 = outcome w"
    using perform_outcome [of "SetRegistryURL pm (LOCAL_REGISTRY_URL st)" w1] set w1 by simp
  obtain ra wa where act: "run action w2 = (ra, wa)" by (cases "run action w2")
  have oa: "outcome wa = outcome w" using run_outcome [of action w2] act o2 by simp
  have first: "registry (snd (run (withLocalRegistry st pm action) w)) pm = registry w pm"
  proof (cases r0)
    case (Inl e)
    then show ?thesis using get w1 by (simp add: run_withLocalRegistry)
  next
    case (Inr u)
    then have u: "u = registry w pm" using r0 by simp
    show ?thesis
      using get set act Inr u restore [OF o2] restore [OF oa]
      by (cases r1) (simp_all add: run_withLocalRegistry restored_def)
  qed
  have second: "run (withLocalRegistry st pm action) w =
            (fst (run action (swapped st pm w)),
             restored pm (registry w pm) (snd (run action (swapped st pm w))))"
    if g: "\<not> isl (outcome w (length (trace w)) (GetRegistryURL pm))"
      and s: "\<not> isl (outcome w (Suc (length (trace w)))
                       (SetRegistryURL pm (LOCAL_REGISTRY_URL st)))"
  proof -
    let ?wa = "snd (run action (swapped st pm w))"
    have "\<not> isl (outcome w (length (trace ?wa)) ?restore)" using restore_ok by blast
    then show ?thesis using withLocalRegistry_run [OF g s, of action]
      by (cases "outcome w (length (trace ?wa)) ?restore") (simp_all split: prod.splits)
  qed
  show ?thesis using first second by blast
qed

theorem withLocalRegistry_restores_witness:
  "(\<forall>n. \<not> isl (install_fails n (SetRegistryURL ''npm'' ''https://registry.npmjs.org/''))) \<and>
   fst (run (sbInit st0 ''/tmp/t/before'' [] False) (swapped st0 ''npm'' (world0 install_fails)))
     = Inl (Error ''install failed'') \<and>
   fst (run (withLocalRegistry st0 ''npm'' (sbInit st0 ''/tmp/t/before'' [] False))
          (world0 install_fails)) = Inl (Error ''install failed'') \<and>
   registry (snd (run (withLocalRegistry st0 ''npm'' (sbInit st0 ''/tmp/t/before'' [] False))
          (world0 install_fails))) ''npm'' = ''https://registry.npmjs.org/''"
proof -
  have h: "\<forall>n. \<not> isl (outcome (world0 install_fails) n
              (SetRegistryURL ''npm'' (registry (world0 install_fails) ''npm'')))"
    by (simp add: world0_def install_fails_def all_ok_def)
  have a: "fst (run (sbInit st0 ''/tmp/t/before'' [] False)
                 (swapped st0 ''npm'' (world0 install_fails))) = Inl (Error ''install failed'')"
    by (simp add: eval_defs)
  show ?thesis
    using h a withLocalRegistry_restores [OF h, of st0 "sbInit st0 ''/tmp/t/before'' [] False"]
    by (simp add: world0_def install_fails_def all_ok_def restored_def)
qed




text \<open>
  Since \<open>v\<close> is the setting \<^verbatim>\<open>audit\<close> and not the flag, a user's
  \<^verbatim>\<open>legacy-peer-deps = true\<close> comes back as \<^verbatim>\<open>false\<close> after a successful installation.
\<close>

lemma addStorybook_restores_other_key:
  "npm_config (strict_peer_deps (world0 all_ok)) ''legacy-peer-deps'' = ''true'' \<and>
   fst (run (addStorybook st0 ''/tmp/t/before'' False [] False ''angular-cli/prerelease'')
          (strict_peer_deps (world0 all_ok))) = Inr () \<and>
   npm_config
     (snd (run (addStorybook st0 ''/tmp/t/before'' False [] False ''angular-cli/prerelease'')
          (strict_peer_deps (world0 all_ok)))) ''legacy-peer-deps'' = ''false''"
  by (simp add: eval_defs)

text \<open>
  Claim C4, as the script has it. The restoration is the first statement of the
  \<^verbatim>\<open>finally\<close> block and \<^verbatim>\<open>throw error\<close> comes after it: when the restoration fails, the
  caller receives the error of the restoration and nothing else, whether the wrapped action
  had failed or not; the error of the action is dropped. When the restoration succeeds, the
  caller receives the result of the action, its error if it failed.
\<close>

theorem withLocalRegistry_restore_error_wins:
  assumes get_ok: "\<not> isl (outcome w (length (trace w)) (GetRegistryURL pm))"
    and set_ok: "\<not> isl (outcome w (Suc (length (trace w)))
                       (SetRegistryURL pm (LOCAL_REGISTRY_URL st)))"
  shows "fst (run (withLocalRegistry st pm action) w) =
     (case outcome w (length (trace (snd (run action (swapped st pm w)))))
             (SetRegistryURL pm (registry w pm)) of
        Inl e' \<Rightarrow> Inl e'
      | Inr y \<Rightarrow> fst (run action (swapped st pm w)))"
  using withLocalRegistry_run [OF get_ok set_ok, of action]
  by (simp split: prod.splits sum.splits)

theorem withLocalRegistry_restore_error_wins_witness:
  "\<not> isl (install_and_restore_fail 0 (GetRegistryURL ''npm'')) \<and>
   \<not> isl (install_and_restore_fail 1 (SetRegistryURL ''npm'' ''http://localhost:6001'')) \<and>
   fst (run (withLocalRegistry st0 ''npm'' (sbInit st0 ''/tmp/t/before'' [] False))
          (world0 install_and_restore_fail)) = Inl (Error ''restore failed'')"
proof -
  have g: "\<not> isl (outcome (world0 install_and_restore_fail)
                   (length (trace (world0 install_and_restore_fail))) (GetRegistryURL ''npm''))"
    by (simp add: world0_def install_and_restore_fail_def install_fails_def all_ok_def)
  have s: "\<not> isl (outcome (world0 install_and_restore_fail)
                   (Suc (length (trace (world0 install_and_restore_fail))))
                   (SetRegistryURL ''npm'' (LOCAL_REGISTRY_URL st0)))"
    by (simp add: world0_def install_and_restore_fail_def st0_def)
  show ?thesis
    using withLocalRegistry_restore_error_wins
      [OF g s, of "sbInit st0 ''/tmp/t/before'' [] False"]
    by (simp add: world0_def install_and_restore_fail_def install_fails_def all_ok_def st0_def)
qed

text \<open>
  Against claim C4 as stated: the installer fails with one error, the restoration with
  another, and the caller is given the error of the restoration, not that of the action.
\<close>

theorem withLocalRegistry_action_error_lost:
  "fst (run (sbInit st0 ''/tmp/t/before'' [''--type html''] False)
          (swapped st0 ''npm'' (world0 install_and_restore_fail)))
     = Inl (Error ''install failed'') \<and>
   fst (run (withLocalRegistry st0 ''npm''
               (sbInit st0 ''/tmp/t/before'' [''--type html''] False))
          (world0 install_and_restore_fail)) = Inl (Error ''restore failed'') \<and>
   fst (run (withLocalRegistry st0 ''npm''
               (sbInit st0 ''/tmp/t/before'' [''--type html''] False))
          (world0 install_and_restore_fail)) \<noteq> Inl (Error ''install failed'')"
  by (simp add: eval_defs)

text \<open>
  Claim C5. When clearing \<^verbatim>\<open>baseDir\<close> succeeded and the temp root is \<open>tempDir\<close>: if the
  init script contains \<^verbatim>\<open>{{beforeDir}}\<close>, the next thing the builder does is to run the
  script with the token replaced (\<^verbatim>\<open>replaceAll\<close>) by the before-directory name, with the
  temp root as working directory; if it does not, the builder creates \<^verbatim>\<open>tempDir/before\<close>
  and, when that succeeded, runs the script unchanged with that directory as working
  directory.
\<close>

theorem scaffolding_command:
  assumes empty_ok: "\<not> isl (outcome w (length (trace w))
                         (EmptyDir (join (REPROS_DIRECTORY st) (dirName g))))"
    and temp: "outcome w (Suc (length (trace w))) TempDirectory = Inr tempDir"
    and ensure_ok: "\<not> str_includes (script g) ''{{beforeDir}}'' \<longrightarrow>
       \<not> isl (outcome w (Suc (Suc (length (trace w)))) (EnsureDir (join tempDir BEFORE_DIR_NAME)))"
  shows "prefix
     (trace w @ [EmptyDir (join (REPROS_DIRECTORY st) (dirName g)), TempDirectory] @
      (if str_includes (script g) ''{{beforeDir}}'' then
         [ExecaCommand (replaceAll (script g) ''{{beforeDir}}'' BEFORE_DIR_NAME)
            \<lparr>cwd = Some tempDir,
             env = Some [(''npm_config_user_agent'',
               if startsWith (replaceAll (script g) ''{{beforeDir}}'' BEFORE_DIR_NAME) ''yarn''
               then ''yarn''
               else if startsWith (replaceAll (script g) ''{{beforeDir}}'' BEFORE_DIR_NAME) ''pnpm''
               then ''pnpm'' else ''npm'')],
             timeout = Some (SCRIPT_TIMEOUT st),
             stdout = Some (if dbg then ''inherit'' else ''ignore''),
             stderr = Some ''inherit'', shell = Some True\<rparr>]
       else
         [EnsureDir (join tempDir BEFORE_DIR_NAME),
          ExecaCommand (script g)
            \<lparr>cwd = Some (join tempDir BEFORE_DIR_NAME), env = None,
             timeout = Some (SCRIPT_TIMEOUT st),
             stdout = Some (if dbg then ''inherit'' else ''ignore''),
             stderr = None, shell = Some True\<rparr>]))
     (trace (snd (run (generator_task st lr dbg g) w)))"
proof -
  let ?baseDir = "join (REPROS_DIRECTORY st) (dirName g)"
  define w1 where "w1 = w\<lparr>trace := trace w @ [EmptyDir ?baseDir]\<rparr>"
  define w2 where "w2 = w1\<lparr>trace := trace w1 @ [TempDirectory]\<rparr>"
  obtain s where "outcome w (length (trace w)) (EmptyDir ?baseDir) = Inr s"
    using empty_ok not_isl_Inr by blast
  then have p1: "run (call (EmptyDir ?baseDir)) w = (Inr s, w1)"
    by (simp add: run_call perform_def Let_def w1_def)
  have p2: "run (call TempDirectory) w1 = (Inr tempDir, w2)"
    using temp by (simp add: run_call perform_def Let_def w1_def w2_def)
  let ?tempInitDir = "join tempDir BEFORE_DIR_NAME"
  let ?scaffold = "if str_includes (script g) ''{{beforeDir}}''
              then (let scriptWithBeforeDir =
                          replaceAll (script g) ''{{beforeDir}}'' BEFORE_DIR_NAME
                    in runCommand scriptWithBeforeDir
                         (no_options\<lparr>cwd := Some tempDir,
                            timeout := Some (SCRIPT_TIMEOUT st),
                            stderr := Some ''inherit'',
                            env := Some [(''npm_config_user_agent'',
                              if startsWith scriptWithBeforeDir ''yarn'' then ''yarn''
                              else if startsWith scriptWithBeforeDir ''pnpm'' then ''pnpm''
                              else ''npm'')]\<rparr>)
                         dbg)
              else seq (call (EnsureDir ?tempInitDir))
                     (runCommand (script g)
                        (no_options\<lparr>cwd := Some ?tempInitDir,
                           timeout := Some (SCRIPT_TIMEOUT st)\<rparr>)
                        dbg)"
  have scaffold: "trace (snd (run ?scaffold w2)) =
     trace w2 @
      (if str_includes (script g) ''{{beforeDir}}'' then
         [ExecaCommand (replaceAll (script g) ''{{beforeDir}}'' BEFORE_DIR_NAME)
            \<lparr>cwd = Some tempDir,
             env = Some [(''npm_config_user_agent'',
               if startsWith (replaceAll (script g) ''{{beforeDir}}'' BEFORE_DIR_NAME) ''yarn''
               then ''yarn''
               else if startsWith (replaceAll (script g) ''{{beforeDir}}'' BEFORE_DIR_NAME) ''pnpm''
               then ''pnpm'' else ''npm'')],
             timeout = Some (SCRIPT_TIMEOUT st),
             stdout = Some (if dbg then ''inherit'' else ''ignore''),
             stderr = Some ''inherit'', shell = Some True\<rparr>]
       else
         [EnsureDir ?tempInitDir,
          ExecaCommand (script g)
            \<lparr>cwd = Some ?tempInitDir, env = None,
             timeout = Some (SCRIPT_TIMEOUT st),
             stdout = Some (if dbg then ''inherit'' else ''ignore''),
             stderr = None, shell = Some True\<rparr>])"
  proof (cases "str_includes (script g) ''{{beforeDir}}''")
    case True
    then show ?thesis
      by (simp add: runCommand_def execaCommand_def run_call perform_trace Let_def
          spread_def no_options_def or_else_def)
  next
    case False
    then obtain s' where "outcome w (Suc (Suc (length (trace w)))) (EnsureDir ?tempInitDir) = Inr s'"
      using ensure_ok not_isl_Inr by blast
    then have "run (call (EnsureDir ?tempInitDir)) w2 =
        (Inr s', w2\<lparr>trace := trace w2 @ [EnsureDir ?tempInitDir]\<rparr>)"
      by (simp add: run_call perform_def Let_def w1_def w2_def)
    then show ?thesis using False
      by (simp add: run_seq_ok runCommand_def execaCommand_def run_call perform_trace
          spread_def no_options_def or_else_def)
  qed
  have "prefix (trace (snd (run ?scaffold w2))) (trace (snd (run (generator_task st lr dbg g) w)))"
    unfolding generator_task_def Let_def
    by (subst run_seq_ok [OF p1], subst run_bind_ok [OF p2]) (rule run_seq_prefix)
  then show ?thesis
    unfolding scaffold by (simp add: w2_def w1_def)
qed


theorem scaffolding_command_witness:
  "prefix
     [EmptyDir ''/repo/sandbox/html-webpack/default'', TempDirectory,
      ExecaCommand ''tool create before''
        \<lparr>cwd = Some ''/tmp/t'', env = Some [(''npm_config_user_agent'', ''npm'')],
         timeout = Some 900000, stdout = Some ''ignore'', stderr = Some ''inherit'',
         shell = Some True\<rparr>]
     (trace (snd (run (generator_task st0 True False g_html) (world0 all_ok)))) \<and>
   prefix
     [EmptyDir ''/repo/sandbox/react-vite/default-js'', TempDirectory,
      EnsureDir ''/tmp/t/before'',
      ExecaCommand ''yarn create vite . --template react''
        \<lparr>cwd = Some ''/tmp/t/before'', env = None,
         timeout = Some 900000, stdout = Some ''ignore'', stderr = None,
         shell = Some True\<rparr>]
     (trace (snd (run (generator_task st0 True False g_react) (world0 all_ok))))"
proof -
  have a1: "\<not> isl (outcome (world0 all_ok) (length (trace (world0 all_ok)))
                (EmptyDir (join (REPROS_DIRECTORY st0) (dirName g_html))))"
    and a2: "\<not> isl (outcome (world0 all_ok) (length (trace (world0 all_ok)))
                (EmptyDir (join (REPROS_DIRECTORY st0) (dirName g_react))))"
    and t: "outcome (world0 all_ok) (Suc (length (trace (world0 all_ok)))) TempDirectory
              = Inr ''/tmp/t''"
    by (simp_all add: world0_def all_ok_def)
  have e1: "\<not> str_includes (script g_html) ''{{beforeDir}}'' \<longrightarrow>
       \<not> isl (outcome (world0 all_ok) (Suc (Suc (length (trace (world0 all_ok)))))
                (EnsureDir (join ''/tmp/t'' BEFORE_DIR_NAME)))"
    and e2: "\<not> str_includes (script g_react) ''{{beforeDir}}'' \<longrightarrow>
       \<not> isl (outcome (world0 all_ok) (Suc (Suc (length (trace (world0 all_ok)))))
                (EnsureDir (join ''/tmp/t'' BEFORE_DIR_NAME)))"
    by (simp_all add: world0_def all_ok_def)
  show ?thesis
    using scaffolding_command [OF a1 t e1, where lr = True and dbg = False]
      scaffolding_command [OF a2 t e2, where lr = True and dbg = False]
    by (simp add: g_html_def g_react_def st0_def world0_def str_includes_def indexOf_def
        startsWith_def join_def BEFORE_DIR_NAME_def)
qed

text \<open>
  Claim C6. Whatever tree the scaffolding left in the init directory, no entry of the
  before snapshot is named \<^verbatim>\<open>node_modules\<close> or \<^verbatim>\<open>.git\<close>: no path of the snapshot has
  such a component below its root.
\<close>

theorem before_snapshot_components:
  assumes "before_snapshot tempInitDir t = Some t'"
  shows "''node_modules'' \<notin> set (names_below t') \<and> ''.git'' \<notin> set (names_below t')"
proof -
  have "\<forall>n \<in> set (names_below t'). \<not> sublist ''node_modules'' n \<and> \<not> sublist ''.git'' n"
    using assms names_of_copy(1) by (simp add: before_snapshot_def)
  then show ?thesis by (meson sublist_order.order_refl)
qed

theorem before_snapshot_components_witness:
  "before_snapshot ''/tmp/t/before'' scaffolded =
     Some (DirNode ''before'' [DirNode ''src'' [FileNode ''a.js''], FileNode ''package.json'']) \<and>
   ''node_modules'' \<in> set (names_below scaffolded) \<and>
   ''.git'' \<in> set (names_below scaffolded) \<and>
   ''node_modules'' \<notin> set (names_below
      (DirNode ''before'' [DirNode ''src'' [FileNode ''a.js''], FileNode ''package.json''])) \<and>
   ''.git'' \<notin> set (names_below
      (DirNode ''before'' [DirNode ''src'' [FileNode ''a.js''], FileNode ''package.json'']))"
proof -
  have "''node_modules'' \<in> set (names_below scaffolded)"
    and "''.git'' \<in> set (names_below scaffolded)"
    by (simp_all add: scaffolded_def)
  then show ?thesis
    using before_snapshot_scaffolded before_snapshot_components [OF before_snapshot_scaffolded]
    by blast
qed

text \<open>
  Claim C7. Every call of the installer made by the builder of a task runs the command
  \<^verbatim>\<open>init --yes\<close> of the CLI binary, followed by \<^verbatim>\<open>--type html\<close> when the renderer of the
  template is \<^verbatim>\<open>@storybook/html\<close>, by \<^verbatim>\<open>--type server\<close> when it is
  \<^verbatim>\<open>@storybook/server\<close>, and by nothing for any other renderer.
\<close>

theorem installer_flags:
  assumes new: "ev \<in> set (drop (length (trace w))
                   (trace (snd (run (generator_task st lr dbg g) w))))"
    and inst: "installer_invocation ev"
  shows "\<exists>opts. ev =
     ExecaCommand
       (sbCliBinaryPath st @ '' init --yes'' @
          (if renderer (expected g) = ''@storybook/html'' then '' --type html''
           else if renderer (expected g) = ''@storybook/server'' then '' --type server''
           else []))
       opts"
proof -
  let ?P = "\<lambda>ev. installer_invocation ev \<longrightarrow> (\<exists>opts. ev =
     ExecaCommand
       (sbCliBinaryPath st @ '' init --yes'' @
          (if renderer (expected g) = ''@storybook/html'' then '' --type html''
           else if renderer (expected g) = ''@storybook/server'' then '' --type server''
           else []))
       opts)"
  have "all_events ?P (generator_task st lr dbg g)"
    unfolding generator_task_def addStorybook_def addDocumentation_def withLocalRegistry_def
      sbInit_def runCommand_def execaCommand_def Let_def
    by (intro all_events_intros allI impI conjI)
      (simp_all add: installer_invocation_def spread_def no_options_def or_else_def
        split: option.splits)
  then show ?thesis using all_events_run [OF _ new] inst by blast
qed

theorem installer_flags_witness:
  "ExecaCommand ''/repo/code/lib/cli/bin/index.js init --yes --type html''
       \<lparr>cwd = Some ''/tmp/t/before'', env = Some [(''STORYBOOK_DISABLE_TELEMETRY'', ''true'')],
        timeout = None, stdout = Some ''ignore'', stderr = None, shell = Some True\<rparr>
     \<in> set (trace (snd (run (generator_task st0 True False g_html) (world0 all_ok)))) \<and>
   (\<exists>opts. ExecaCommand ''/repo/code/lib/cli/bin/index.js init --yes --type html''
       \<lparr>cwd = Some ''/tmp/t/before'', env = Some [(''STORYBOOK_DISABLE_TELEMETRY'', ''true'')],
        timeout = None, stdout = Some ''ignore'', stderr = None, shell = Some True\<rparr> =
     ExecaCommand
       (sbCliBinaryPath st0 @ '' init --yes'' @
          (if renderer (expected g_html) = ''@storybook/html'' then '' --type html''
           else if renderer (expected g_html) = ''@storybook/server'' then '' --type server''
           else []))
       opts)"
proof -
  let ?ev = "ExecaCommand ''/repo/code/lib/cli/bin/index.js init --yes --type html''
       \<lparr>cwd = Some ''/tmp/t/before'', env = Some [(''STORYBOOK_DISABLE_TELEMETRY'', ''true'')],
        timeout = None, stdout = Some ''ignore'', stderr = None, shell = Some True\<rparr>"
  have m: "?ev \<in> set (trace (snd (run (generator_task st0 True False g_html) (world0 all_ok))))"
    by (simp add: eval_defs)
  then have new: "?ev \<in> set (drop (length (trace (world0 all_ok)))
                   (trace (snd (run (generator_task st0 True False g_html) (world0 all_ok)))))"
    by (simp add: world0_def)
  have inst: "installer_invocation ?ev" by (simp add: installer_invocation_def)
  show ?thesis using m installer_flags [OF new inst] by (intro conjI)
qed

text \<open>
  Claim C8. The limit is one. In every state the limiter can reach from the start of
  \<^verbatim>\<open>runGenerators\<close>, at most one builder is in flight, and the task numbers along the log of
  events never decrease: once a task has performed an event, no task before it in the list
  performs one any more, so no command of a task starts before the last command of the
  task before it.
\<close>

theorem one_builder_at_a_time:
  assumes "(pool_step concurrency)\<^sup>*\<^sup>*
             (pool_init (map (generator_task st lr dbg) generators) w) s"
  shows "length (active s) \<le> 1 \<and> sorted (map fst (plog s))"
proof -
  have "pool_inv s"
    using assms pool_inv_reachable pool_inv_init unfolding concurrency_def by blast
  then show ?thesis by (simp add: pool_inv_def sorted_append)
qed


theorem one_builder_at_a_time_witness:
  "\<exists>s. (pool_step concurrency)\<^sup>*\<^sup>*
          (pool_init (map (generator_task st0 True False) [g_html, g_react]) (world0 all_ok)) s \<and>
        queue s = [] \<and> active s = [] \<and>
        pworld s = run_all (map (generator_task st0 True False) [g_html, g_react]) (world0 all_ok) \<and>
        length (active s) \<le> 1 \<and> sorted (map fst (plog s))"
proof -
  have "0 < concurrency" by (simp add: concurrency_def)
  then obtain lg where r: "(pool_step concurrency)\<^sup>*\<^sup>*
      (pool_init (map (generator_task st0 True False) [g_html, g_react]) (world0 all_ok))
      \<lparr>queue = [], active = [],
        pworld = run_all (map (generator_task st0 True False) [g_html, g_react]) (world0 all_ok),
        plog = lg\<rparr>"
    using pool_completes by blast
  show ?thesis
    using r one_builder_at_a_time [OF r] by (intro exI [of _ "\<lparr>queue = [], active = [],
        pworld = run_all (map (generator_task st0 True False) [g_html, g_react]) (world0 all_ok),
        plog = lg\<rparr>"]) simp
qed

text \<open>
  Claim C9, as the script has it. When the requested template key is not in the catalog,
  the list of generators is empty: \<^verbatim>\<open>generate\<close> does what \<^verbatim>\<open>improveNPMPerformance\<close> does
  and nothing else, leaves nothing queued, and where the \<^verbatim>\<open>npm config\<close> commands work the
  process exits with code 0.
\<close>

theorem unknown_template_runs_nothing:
  assumes "template opts = Some t" and "t \<noteq> []" and "t \<notin> fst ` set sandboxTemplates"
  shows "generate st sandboxTemplates opts w =
       (fst (run improveNPMPerformance w), snd (run improveNPMPerformance w), []) \<and>
     (npm_config_works w \<longrightarrow> program_action st sandboxTemplates opts w = (0, tuned w))"
  using generate_unknown [OF assms, of st w] run_improveNPMPerformance [of w]
  by (simp add: program_action_def)

theorem unknown_template_runs_nothing_witness:
  "template opts_unknown = Some ''no-such-template'' \<and>
   ''no-such-template'' \<notin> fst ` set catalog0 \<and>
   npm_config_works (world0 all_ok) \<and>
   program_action st0 catalog0 opts_unknown (world0 all_ok) = (0, tuned (world0 all_ok))"
proof -
  have t: "template opts_unknown = Some ''no-such-template''" by (simp add: opts_unknown_def)
  have ne: "''no-such-template'' \<noteq> []" by simp
  have n: "''no-such-template'' \<notin> fst ` set catalog0"
    by (simp add: catalog0_def t_html_def t_react_def)
  have w: "npm_config_works (world0 all_ok)"
    by (simp add: npm_config_works_def world0_def all_ok_def)
  show ?thesis
    using t n w unknown_template_runs_nothing [OF t ne n, of st0 "world0 all_ok"] by blast
qed

text \<open>
  Against claim C9 as stated: a key that the catalog does not have, and the exit code is 0
  after the five steps of the tuning.
\<close>

theorem unknown_template_exits_0:
  "fst (program_action st0 catalog0 opts_unknown (world0 all_ok)) = 0 \<and>
   length (trace (snd (program_action st0 catalog0 opts_unknown (world0 all_ok)))) = 5"
  by (simp add: eval_main)

text \<open>
  Claim C10. The filter looks for \<^verbatim>\<open>node_modules\<close> and \<^verbatim>\<open>.git\<close> anywhere in the full
  source path: the entries of the before snapshot are exactly the entries of the init
  directory whose full path contains neither as a substring. A top-level \<^verbatim>\<open>.gitignore\<close>
  and a directory \<^verbatim>\<open>node_modules_backup\<close> are therefore left out too.
\<close>

theorem before_snapshot_excludes_substrings:
  "snapshot_paths tempInitDir t =
     filter (\<lambda>p. \<not> sublist ''node_modules'' p \<and> \<not> sublist ''.git'' p)
       (paths_of tempInitDir t)"
  using copy_paths(1) [of tempInitDir t]
  by (simp add: snapshot_paths_def before_snapshot_def before_filter_sublist [abs_def])

theorem before_snapshot_excludes_substrings_witness:
  "''/tmp/t/before/.gitignore'' \<in> set (paths_of ''/tmp/t/before'' scaffolded) \<and>
   ''/tmp/t/before/node_modules_backup'' \<in> set (paths_of ''/tmp/t/before'' scaffolded) \<and>
   ''/tmp/t/before/.gitignore'' \<notin> set (snapshot_paths ''/tmp/t/before'' scaffolded) \<and>
   ''/tmp/t/before/node_modules_backup'' \<notin> set (snapshot_paths ''/tmp/t/before'' scaffolded)"
proof -
  have "sublist ''.git'' (''/tmp/t/before/'' @ ''.git'' @ ''ignore'')"
    by (rule sublist_appendI)
  then have g: "sublist ''.git'' ''/tmp/t/before/.gitignore''" by simp
  have "sublist ''node_modules'' (''/tmp/t/before/'' @ ''node_modules'' @ ''_backup'')"
    by (rule sublist_appendI)
  then have n: "sublist ''node_modules'' ''/tmp/t/before/node_modules_backup''" by simp
  have p: "''/tmp/t/before/.gitignore'' \<in> set (paths_of ''/tmp/t/before'' scaffolded)"
    "''/tmp/t/before/node_modules_backup'' \<in> set (paths_of ''/tmp/t/before'' scaffolded)"
    by (simp_all add: scaffolded_def join_def)
  show ?thesis
    using g n p before_snapshot_excludes_substrings [of "''/tmp/t/before''" scaffolded]
    by simp
qed

end
